theory Spec2Isabelle
  imports Main "HOL-Library.Sublist"
begin

section \<open>Python string operations used by smartdispatch.py\<close>

text \<open>
  Commands are Python 2 byte strings, modelled as \<open>string\<close> (a list of 8-bit characters).
  \<open>isspace\<close> is the whitespace class of \<open>str.strip()\<close> and \<open>str.split()\<close> without
  arguments: space, tab, line feed, vertical tab, form feed and carriage return.
\<close>

definition isspace :: "char \<Rightarrow> bool" where
  "isspace c = (c = CHR '' '' \<or> c = CHR 0x09 \<or> c = CHR 0x0A \<or> c = CHR 0x0B
                \<or> c = CHR 0x0C \<or> c = CHR 0x0D)"


text \<open>
  \<open>s.split(sep)\<close> for a one-character separator: every occurrence of the separator ends
  a piece, so the result is never empty and \<open>''''.split(sep)\<close> is \<open>['''']\<close>.
\<close>

fun split_char :: "char \<Rightarrow> string \<Rightarrow> string list" where
  "split_char sep [] = [[]]"
| "split_char sep (c # cs) =
     (if c = sep then [] # split_char sep cs
      else (case split_char sep cs of
              [] \<Rightarrow> [[c]]
            | p # ps \<Rightarrow> (c # p) # ps))"

text \<open>\<open>sep.join(pieces)\<close>.\<close>

fun join :: "string \<Rightarrow> string list \<Rightarrow> string" where
  "join sep [] = []"
| "join sep [p] = p"
| "join sep (p # q # ps) = p @ sep @ join sep (q # ps)"

text \<open>
  \<open>s.split()\<close> without arguments: the maximal runs of non-whitespace characters, in
  order; runs of whitespace separate them and produce no empty piece. The first argument
  holds the characters of the piece being read.
\<close>

fun split_ws_from :: "string \<Rightarrow> string \<Rightarrow> string list" where
  "split_ws_from cur [] = (if cur = [] then [] else [cur])"
| "split_ws_from cur (c # cs) =
     (if isspace c then (if cur = [] then split_ws_from [] cs else cur # split_ws_from [] cs)
      else split_ws_from (cur @ [c]) cs)"

definition split_ws :: "string \<Rightarrow> string list" where
  "split_ws s = split_ws_from [] s"

section \<open>get_commands_from_file\<close>


section \<open>replace_uid_tag\<close>

text \<open>
  \<open>s.replace(old, new)\<close>: the occurrences of \<open>old\<close> are found scanning from the left,
  each search starting behind the previous occurrence, and every one becomes \<open>new\<close>. With
  an empty \<open>old\<close> Python puts \<open>new\<close> before every character and at the end.
  \<open>split_str\<close> is \<open>s.split(sep)\<close> for a separator of any length, found by the same scan;
  the properties below are stated with it.
\<close>

definition UID_TAG :: string where
  "UID_TAG = ''{UID}''"

function replace_scan :: "string \<Rightarrow> string \<Rightarrow> string \<Rightarrow> string" where
  "replace_scan old new [] = []"
| "replace_scan old new (c # cs) =
     (if old \<noteq> [] \<and> prefix old (c # cs)
      then new @ replace_scan old new (drop (length old) (c # cs))
      else c # replace_scan old new cs)"
  by pat_completeness auto
termination
  by (relation "measure (\<lambda>(old, new, s). length s)") auto

definition str_replace :: "string \<Rightarrow> string \<Rightarrow> string \<Rightarrow> string" where
  "str_replace s old new =
     (if old = [] then new @ concat (map (\<lambda>c. c # new) s) else replace_scan old new s)"

function split_str :: "string \<Rightarrow> string \<Rightarrow> string list" where
  "split_str sep [] = [[]]"
| "split_str sep (c # cs) =
     (if sep \<noteq> [] \<and> prefix sep (c # cs)
      then [] # split_str sep (drop (length sep) (c # cs))
      else (case split_str sep cs of
              [] \<Rightarrow> [[c]]
            | p # ps \<Rightarrow> (c # p) # ps))"
  by pat_completeness auto
termination
  by (relation "measure (\<lambda>(sep, s). length s)") auto

text \<open>
  \<open>return [command.replace("{UID}", utils.generate_uid_from_string(command))
  for command in commands]\<close>. The module \<open>utils\<close> is not among the sources; its function
  \<open>generate_uid_from_string\<close> is the first parameter.
\<close>

definition replace_uid_tag :: "(string \<Rightarrow> string) \<Rightarrow> string list \<Rightarrow> string list" where
  "replace_uid_tag generate_uid_from_string commands =
     map (\<lambda>command. str_replace command ''{UID}'' (generate_uid_from_string command)) commands"

section \<open>Decimal numerals\<close>

text \<open>\<open>str(n)\<close> for an integer: its decimal digits, no padding, a minus sign when negative.\<close>

definition digit_char :: "nat \<Rightarrow> char" where
  "digit_char d = ''0123456789'' ! d"

fun str_nat :: "nat \<Rightarrow> string" where
  "str_nat n = (if n < 10 then [digit_char n] else str_nat (n div 10) @ [digit_char (n mod 10)])"

declare str_nat.simps [simp del]

definition str_int :: "int \<Rightarrow> string" where
  "str_int i = (if i < 0 then CHR ''-'' # str_nat (nat (- i)) else str_nat (nat i))"

section \<open>generate_name_from_command\<close>

text \<open>
  \<open>t.strftime("%Y-%m-%d_%H-%M-%S_")\<close> formats the local time of the call. The clock is
  modelled by the broken-down time it returns; \<open>%Y\<close> is the decimal year, the other
  fields are two digits, zero-padded.
\<close>

record struct_time =
  tm_year :: nat
  tm_mon :: nat
  tm_mday :: nat
  tm_hour :: nat
  tm_min :: nat
  tm_sec :: nat

definition pad2 :: "nat \<Rightarrow> string" where
  "pad2 n = (if n < 10 then CHR ''0'' # str_nat n else str_nat n)"

definition strftime_name :: "struct_time \<Rightarrow> string" where
  "strftime_name now =
     str_nat (tm_year now) @ ''-'' @ pad2 (tm_mon now) @ ''-'' @ pad2 (tm_mday now) @ ''_''
     @ pad2 (tm_hour now) @ ''-'' @ pad2 (tm_min now) @ ''-'' @ pad2 (tm_sec now) @ ''_''"

text \<open>
  Python slices \<open>s[start:]\<close> and \<open>s[:stop]\<close>: \<open>None\<close> leaves the end open, a negative
  index counts from the end of the string, and an index out of range is clipped.
\<close>

definition slice_from :: "int option \<Rightarrow> 'a list \<Rightarrow> 'a list" where
  "slice_from start s =
     (case start of
        None \<Rightarrow> s
      | Some i \<Rightarrow> if i < 0 then drop (nat (int (length s) + i)) s else drop (nat i) s)"

definition slice_to :: "int option \<Rightarrow> 'a list \<Rightarrow> 'a list" where
  "slice_to stop s =
     (case stop of
        None \<Rightarrow> s
      | Some j \<Rightarrow> if j < 0 then take (nat (int (length s) + j)) s else take (nat j) s)"

text \<open>
  The body of \<open>generate_name_from_command\<close>, statement by statement.
  \<open>utils.slugify\<close> is not among the sources and is the first parameter.
\<close>

definition generate_name_from_command ::
  "(string \<Rightarrow> string) \<Rightarrow> struct_time \<Rightarrow> string \<Rightarrow> int option \<Rightarrow> int option \<Rightarrow> string" where
  "generate_name_from_command slugify now command max_length_arg max_length =
     (let max_length_arg = map_option (\<lambda>m. min (- m) m) max_length_arg;
          name = strftime_name now;
          name = name @ join ''_'' (map (\<lambda>argvalue. slice_from max_length_arg (slugify argvalue))
                                        (split_ws command))
      in slice_to max_length name)"

section \<open>Argument templates\<close>

text \<open>
  The module \<open>smartdispatch.argument_template\<close> is not among the sources.
  \<open>unfold_command\<close> uses its registry \<open>argument_templates\<close> as an ordered mapping from
  a name to an object with a field \<open>regex\<close> and a method \<open>unfold(matched_text)\<close>; the
  registry is a parameter of the model. A pattern is represented by what it does at the
  start of a text: the length of its match there, if any. An exception raised by
  \<open>unfold\<close> or by the lookup in the registry is an error value.
\<close>

datatype error = ValueError | KeyError

record argument_template =
  regex :: "string \<Rightarrow> nat option"
  unfold :: "string \<Rightarrow> error + string list"

text \<open>
  Modelled from the spec: the integers of a range template (\<open>argument_template.py\<close> is
  missing). An integer is written as an optional minus sign and one or more decimal
  digits.
\<close>

definition digit_val :: "char \<Rightarrow> nat option" where
  "digit_val c = map_of (zip ''0123456789'' [0, 1, 2, 3, 4, 5, 6, 7, 8, 9]) c"

fun parse_digits :: "nat \<Rightarrow> string \<Rightarrow> nat option" where
  "parse_digits acc [] = Some acc"
| "parse_digits acc (c # cs) =
     (case digit_val c of None \<Rightarrow> None | Some d \<Rightarrow> parse_digits (10 * acc + d) cs)"

definition parse_nat :: "string \<Rightarrow> nat option" where
  "parse_nat s = (if s = [] then None else parse_digits 0 s)"

definition parse_int :: "string \<Rightarrow> int option" where
  "parse_int s =
     (case s of
        [] \<Rightarrow> None
      | c # cs \<Rightarrow> if c = CHR ''-'' then map_option (\<lambda>n. - int n) (parse_nat cs)
                  else map_option int (parse_nat s))"

text \<open>
  Modelled from the spec: the text between the brackets of a range template,
  \<open>start:end\<close> or \<open>start:end:step\<close> with integers (\<open>argument_template.py\<close> is missing).
\<close>

definition parse_range :: "string \<Rightarrow> (int \<times> int \<times> int option) option" where
  "parse_range body =
     (case map parse_int (split_char (CHR '':'') body) of
        [Some start, Some stop] \<Rightarrow> Some (start, stop, None)
      | [Some start, Some stop, Some step] \<Rightarrow> Some (start, stop, Some step)
      | _ \<Rightarrow> None)"

text \<open>
  Modelled from the spec: "the sequence of integers from start to end inclusive, stepping
  by step", empty when the step has the wrong sign to reach the end from the start
  (\<open>argument_template.py\<close> is missing). The step is not zero where this is called.
\<close>

function range_inclusive :: "int \<Rightarrow> int \<Rightarrow> int \<Rightarrow> int list" where
  "range_inclusive start stop step =
     (if 0 < step \<and> start \<le> stop \<or> step < 0 \<and> stop \<le> start
      then start # range_inclusive (start + step) stop step
      else [])"
  by pat_completeness auto
termination
  by (relation "measure (\<lambda>(start, stop, step).
        if 0 < step then nat (stop - start + 1) else nat (start - stop + 1))") auto

declare range_inclusive.simps [simp del]

text \<open>
  Modelled from the spec: the text of a folded argument without its two brackets
  (\<open>argument_template.py\<close> is missing).
\<close>

definition inner :: "string \<Rightarrow> string" where
  "inner matched_text = butlast (tl matched_text)"

text \<open>
  Modelled from the spec: the recognition pattern of the range template, \<open>[start:end]\<close>
  or \<open>[start:end:step]\<close> (\<open>argument_template.py\<close> is missing).
\<close>

definition range_regex :: "string \<Rightarrow> nat option" where
  "range_regex s =
     (case s of
        [] \<Rightarrow> None
      | c # cs \<Rightarrow>
          if c \<noteq> CHR ''['' then None
          else (let body = takeWhile (\<lambda>x. x \<noteq> CHR '']'') cs
                in if length body < length cs \<and> parse_range body \<noteq> None
                   then Some (length body + 2) else None))"

text \<open>
  Modelled from the spec: \<open>unfold\<close> of the range template (\<open>argument_template.py\<close> is
  missing). The step defaults to 1; an explicit zero step is a usage error for the
  caller; each integer is rendered as its decimal string.
\<close>

definition range_unfold :: "string \<Rightarrow> error + string list" where
  "range_unfold matched_text =
     (case parse_range (inner matched_text) of
        None \<Rightarrow> Inl ValueError
      | Some (start, stop, step_opt) \<Rightarrow>
          (let step = (case step_opt of None \<Rightarrow> 1 | Some k \<Rightarrow> k)
           in if step = 0 then Inl ValueError
              else Inr (map str_int (range_inclusive start stop step))))"

text \<open>
  Modelled from the spec: the recognition pattern of the list template,
  \<open>[item1 item2 ... itemN]\<close> with at least one item, the items separated by whitespace and
  holding no bracket (\<open>argument_template.py\<close> is missing).
\<close>

definition list_regex :: "string \<Rightarrow> nat option" where
  "list_regex s =
     (case s of
        [] \<Rightarrow> None
      | c # cs \<Rightarrow>
          if c \<noteq> CHR ''['' then None
          else (let body = takeWhile (\<lambda>x. x \<noteq> CHR ''['' \<and> x \<noteq> CHR '']'') cs
                in (case drop (length body) cs of
                      [] \<Rightarrow> None
                    | d # _ \<Rightarrow> if d = CHR '']'' \<and> split_ws body \<noteq> []
                              then Some (length body + 2) else None)))"

text \<open>
  Modelled from the spec: \<open>unfold\<close> of the list template, the items in the order written
  (\<open>argument_template.py\<close> is missing).
\<close>

definition list_unfold :: "string \<Rightarrow> error + string list" where
  "list_unfold matched_text = Inr (split_ws (inner matched_text))"

text \<open>
  Modelled from the spec: the registry with the two required template kinds
  (\<open>argument_template.py\<close> is missing). The first alternative that matches wins, and the
  spec's example \<open>echo [a b] [1:3]\<close> unfolds \<open>[1:3]\<close> as a range although it also has the
  shape of a one-item list: the range template comes first.
\<close>

definition argument_templates :: "(string \<times> argument_template) list" where
  "argument_templates =
     [(''range'', \<lparr>regex = range_regex, unfold = range_unfold\<rparr>),
      (''list'', \<lparr>regex = list_regex, unfold = list_unfold\<rparr>)]"

section \<open>unfold_command\<close>

text \<open>
  The master pattern is the alternation of the registry's patterns, in the registry's
  order, each in a group named after its template: at a given position the first
  alternative that matches decides, and the name of its group is the only one set in
  \<open>match.groupdict()\<close>.
\<close>

fun match_at :: "(string \<times> argument_template) list \<Rightarrow> string \<Rightarrow> (string \<times> nat) option" where
  "match_at [] s = None"
| "match_at ((name, arg) # rest) s =
     (case regex arg s of
        None \<Rightarrow> match_at rest s
      | Some n \<Rightarrow> Some (name, n))"

text \<open>
  \<open>re.finditer(regex, text)\<close>: the matches from left to right, without overlap, each search
  starting where the previous match ended. A match is its start, its end and the name of
  the alternative that matched. Both registered patterns begin with a bracket, so a match
  is never empty; a pattern reporting an empty match is skipped.
\<close>

function finditer ::
  "(string \<times> argument_template) list \<Rightarrow> nat \<Rightarrow> string \<Rightarrow> (nat \<times> nat \<times> string) list" where
  "finditer templates pos [] = []"
| "finditer templates pos (c # cs) =
     (case match_at templates (c # cs) of
        None \<Rightarrow> finditer templates (Suc pos) cs
      | Some (name, n) \<Rightarrow>
          if 0 < n then (pos, pos + n, name) # finditer templates (pos + n) (drop n (c # cs))
          else finditer templates (Suc pos) cs)"
  by pat_completeness auto
termination
  by (relation "measure (\<lambda>(templates, pos, s). length s)") auto

text \<open>\<open>text[i:j]\<close> for \<open>0 \<le> i \<le> j\<close>.\<close>

definition slice :: "'a list \<Rightarrow> nat \<Rightarrow> nat \<Rightarrow> 'a list" where
  "slice s i j = take (j - i) (drop i s)"

text \<open>
  The loop over the matches: before each match the literal text since \<open>pos\<close> as a
  one-element list, then the values the template of the match unfolds to; after the last
  match the rest of the text. The first \<open>unfold\<close> that raises ends the call.
\<close>

fun build_arguments ::
  "(string \<times> argument_template) list \<Rightarrow> string \<Rightarrow> nat \<Rightarrow> (nat \<times> nat \<times> string) list
     \<Rightarrow> error + string list list" where
  "build_arguments templates text pos [] = Inr [[drop pos text]]"
| "build_arguments templates text pos ((start, stop, name) # matches) =
     (case map_of templates name of
        None \<Rightarrow> Inl KeyError
      | Some arg \<Rightarrow>
          (case unfold arg (slice text start stop) of
             Inl e \<Rightarrow> Inl e
           | Inr values \<Rightarrow>
               (case build_arguments templates text stop matches of
                  Inl e \<Rightarrow> Inl e
                | Inr arguments \<Rightarrow> Inr ([slice text pos start] # values # arguments))))"

text \<open>\<open>itertools.product(*arguments)\<close>: every choice of one value per list, the last list varying fastest.\<close>

fun itertools_product :: "'a list list \<Rightarrow> 'a list list" where
  "itertools_product [] = [[]]"
| "itertools_product (xs # xss) =
     concat (map (\<lambda>x. map (\<lambda>rest. x # rest) (itertools_product xss)) xs)"

text \<open>
  The body of \<open>unfold_command\<close>. \<open>utils.encode_escaped_characters\<close> and
  \<open>utils.decode_escaped_characters\<close> are not among the sources and are the first two
  parameters.
\<close>

definition unfold_command ::
  "(string \<Rightarrow> string) \<Rightarrow> (string \<Rightarrow> string) \<Rightarrow> (string \<times> argument_template) list
     \<Rightarrow> string \<Rightarrow> error + string list" where
  "unfold_command encode_escaped_characters decode_escaped_characters templates command =
     (let text = encode_escaped_characters command
      in (case build_arguments templates text 0 (finditer templates 0 text) of
            Inl e \<Rightarrow> Inl e
          | Inr arguments \<Rightarrow>
              Inr (map concat (itertools_product
                     (map (map decode_escaped_characters) arguments)))))"

text \<open>
  The number of elements of the inclusive range: \<open>\<lfloor>(end - start) / step\<rfloor> + 1\<close> when the
  step points from the start towards the end, none otherwise.
\<close>

definition range_count :: "int \<Rightarrow> int \<Rightarrow> int \<Rightarrow> nat" where
  "range_count start stop step =
     (if 0 < step \<and> start \<le> stop \<or> step < 0 \<and> stop \<le> start
      then nat ((stop - start) div step) + 1 else 0)"

section \<open>Properties of the string operations\<close>




lemma split_char_no_sep: "sep \<notin> set p \<Longrightarrow> split_char sep p = [p]"
  by (induction p) auto

lemma split_char_append:
  "sep \<notin> set p \<Longrightarrow> split_char sep (p @ sep # r) = p # split_char sep r"
  by (induction p) auto





section \<open>Claims about get_commands_from_file\<close>



section \<open>Properties of replace_uid_tag\<close>

lemma split_str_not_Nil: "split_str sep s \<noteq> []"
  by (induction sep s rule: split_str.induct) (auto split: list.splits)

lemma join_cons_hd: "join sep ((c # p) # ps) = c # join sep (p # ps)"
  by (cases ps) auto

lemma join_nil_hd: "ps \<noteq> [] \<Longrightarrow> join sep ([] # ps) = sep @ join sep ps"
  by (cases ps) auto

lemma prefix_append_drop: "prefix xs ys \<Longrightarrow> xs @ drop (length xs) ys = ys"
  by (auto simp: prefix_def)

lemma replace_scan_join: "sep \<noteq> [] \<Longrightarrow> replace_scan sep new s = join new (split_str sep s)"
proof (induction sep s rule: split_str.induct)
  case (1 sep)
  then show ?case by simp
next
  case (2 sep c cs)
  show ?case
  proof (cases "prefix sep (c # cs)")
    case True
    with 2 show ?thesis
      by (simp add: join_nil_hd split_str_not_Nil)
  next
    case False
    obtain q qs where q: "split_str sep cs = q # qs"
      by (cases "split_str sep cs") (auto simp: split_str_not_Nil)
    with False 2 show ?thesis
      by (simp add: join_cons_hd)
  qed
qed

lemma join_split_str: "join sep (split_str sep s) = s"
proof (induction sep s rule: split_str.induct)
  case (1 sep)
  then show ?case by simp
next
  case (2 sep c cs)
  show ?case
  proof (cases "sep \<noteq> [] \<and> prefix sep (c # cs)")
    case True
    with 2 have "join sep (split_str sep (c # cs)) = sep @ drop (length sep) (c # cs)"
      by (simp add: join_nil_hd split_str_not_Nil)
    also from True have "\<dots> = c # cs"
      by (simp add: prefix_append_drop)
    finally show ?thesis .
  next
    case False
    obtain q qs where q: "split_str sep cs = q # qs"
      by (cases "split_str sep cs") (auto simp: split_str_not_Nil)
    with False 2 show ?thesis
      by (auto simp: join_cons_hd)
  qed
qed

lemma hd_split_str_prefix: "prefix (hd (split_str sep s)) s"
  by (induction sep s rule: split_str.induct) (auto split: list.splits)

lemma split_str_pieces: "sep \<noteq> [] \<Longrightarrow> p \<in> set (split_str sep s) \<Longrightarrow> \<not> sublist sep p"
proof (induction sep s arbitrary: p rule: split_str.induct)
  case (1 sep)
  then show ?case by simp
next
  case (2 sep c cs)
  show ?case
  proof (cases "prefix sep (c # cs)")
    case True
    with 2 show ?thesis by auto
  next
    case False
    obtain q qs where q: "split_str sep cs = q # qs"
      by (cases "split_str sep cs") (auto simp: split_str_not_Nil)
    have "prefix q cs" using hd_split_str_prefix [of sep cs] q by simp
    with False have np: "\<not> prefix sep (c # q)"
      by (meson Cons_prefix_Cons prefix_order.trans)
    from 2 False q have "\<not> sublist sep q" and "\<forall>x \<in> set qs. \<not> sublist sep x" by auto
    with np 2 False q show ?thesis by (auto simp: sublist_Cons_right)
  qed
qed

lemma str_replace_tag: "str_replace c ''{UID}'' new = join new (split_str ''{UID}'' c)"
  by (simp add: str_replace_def replace_scan_join)





text \<open>
  C7. The result of \<open>replace_uid_tag\<close> is a function of the list of commands (and of the
  hash function) alone, one output per command. Each command is its pieces joined by the
  placeholder \<open>{UID}\<close>, none of the pieces holding a placeholder, and its output is the
  same pieces joined by one identifier, the hash of that command's own text: every
  occurrence of the placeholder gets the same identifier.
\<close>

theorem replace_uid_tag_deterministic:
  "length (replace_uid_tag generate_uid commands) = length commands
   \<and> (\<forall>i < length commands.
         replace_uid_tag generate_uid commands ! i
           = join (generate_uid (commands ! i)) (split_str UID_TAG (commands ! i))
         \<and> join UID_TAG (split_str UID_TAG (commands ! i)) = commands ! i
         \<and> (\<forall>p \<in> set (split_str UID_TAG (commands ! i)). \<not> sublist UID_TAG p))"
  by (simp add: replace_uid_tag_def UID_TAG_def str_replace_tag join_split_str split_str_pieces)

theorem replace_uid_tag_deterministic_witness:
  "replace_uid_tag rev [''run {UID} -o {UID}.log'', ''ls''] ! 0
     = ''run gol.}DIU{ o- }DIU{ nur -o gol.}DIU{ o- }DIU{ nur.log''
   \<and> split_str UID_TAG ''run {UID} -o {UID}.log'' = [''run '', '' -o '', ''.log'']"
proof -
  have s: "split_str UID_TAG ''run {UID} -o {UID}.log'' = [''run '', '' -o '', ''.log'']"
    by (simp add: UID_TAG_def)
  show ?thesis
    using replace_uid_tag_deterministic [of rev "[''run {UID} -o {UID}.log'', ''ls'']"] s
    by simp
qed




section \<open>Properties of generate_name_from_command\<close>

lemma split_ws_example: "split_ws ''run --value 12345678'' = [''run'', ''--value'', ''12345678'']"
  by (simp add: split_ws_def isspace_def)

text \<open>
  C8. With \<open>max_length_arg = 0\<close> the function computes \<open>min(-0, 0) = 0\<close> and slices every
  slugified token with \<open>[0:]\<close>: the tokens are kept whole, where keeping the last
  \<open>max_length_arg\<close> characters would leave none.
\<close>

theorem generate_name_from_command_zero_limit:
  "generate_name_from_command slugify now ''run --value 12345678'' (Some 0) None
     = strftime_name now @ slugify ''run'' @ ''_'' @ slugify ''--value'' @ ''_'' @ slugify ''12345678''"
  by (simp add: generate_name_from_command_def split_ws_example slice_from_def slice_to_def)

text \<open>
  For a limit other than zero the tokens keep their last \<open>|max_length_arg|\<close> characters
  (a shorter token is kept whole) and a non-negative \<open>max_length\<close> keeps the first
  \<open>max_length\<close> characters of the assembled name.
\<close>

lemma generate_name_from_command_limits:
  assumes "k \<noteq> 0" and "0 \<le> n"
  shows "generate_name_from_command slugify now command (Some k) (Some n)
     = take (nat n) (strftime_name now @ join ''_''
          (map (\<lambda>a. drop (length (slugify a) - nat \<bar>k\<bar>) (slugify a)) (split_ws command)))"
proof -
  have "slice_from (Some (min (- k) k)) s = drop (length s - nat \<bar>k\<bar>) s" for s :: string
    using assms(1) by (auto simp: slice_from_def min_def intro!: arg_cong2 [where f = drop])
  then show ?thesis using assms(2)
    by (simp add: generate_name_from_command_def slice_to_def Let_def)
qed

text \<open>Without limits the name is the timestamp and all slugified tokens, whole.\<close>

lemma generate_name_from_command_unbounded:
  "generate_name_from_command slugify now command None None
     = strftime_name now @ join ''_'' (map slugify (split_ws command))"
  by (simp add: generate_name_from_command_def slice_from_def slice_to_def Let_def)

lemma generate_name_from_command_example:
  "generate_name_from_command slugify now ''run --value 12345678'' (Some 4) None
     = strftime_name now @ drop (length (slugify ''run'') - 4) (slugify ''run'') @ ''_''
       @ drop (length (slugify ''--value'') - 4) (slugify ''--value'') @ ''_''
       @ drop (length (slugify ''12345678'') - 4) (slugify ''12345678'')"
proof -
  have "slice_from (Some (- 4)) s = drop (length s - 4) s" for s :: string
    by (auto simp: slice_from_def intro!: arg_cong2 [where f = drop])
  then show ?thesis
    by (simp add: generate_name_from_command_def split_ws_example slice_to_def Let_def)
qed

section \<open>Properties of unfold_command\<close>

lemma length_itertools_product:
  "length (itertools_product xss) = prod_list (map length xss)"
  by (induction xss) (simp_all add: length_concat comp_def sum_list_triv)

lemma itertools_product_Nil_iff: "itertools_product xss = [] \<longleftrightarrow> [] \<in> set xss"
proof -
  have "itertools_product xss = [] \<longleftrightarrow> prod_list (map length xss) = 0"
    using length_itertools_product [of xss] by (metis length_0_conv)
  also have "\<dots> \<longleftrightarrow> [] \<in> set xss"
    by (induction xss) auto
  finally show ?thesis .
qed

lemma unfold_command_arguments:
  assumes "build_arguments templates (enc command) 0 (finditer templates 0 (enc command)) = Inr arguments"
  shows "unfold_command enc dec templates command
           = Inr (map concat (itertools_product (map (map dec) arguments)))"
  using assms by (simp add: unfold_command_def)

lemma finditer_no_match:
  "(\<forall>i < length s. match_at templates (drop i s) = None) \<Longrightarrow> finditer templates pos s = []"
proof (induction s arbitrary: pos)
  case Nil
  then show ?case by simp
next
  case (Cons c cs)
  from Cons.prems have "match_at templates (drop 0 (c # cs)) = None" by blast
  moreover from Cons.prems have "\<forall>i < length cs. match_at templates (drop i cs) = None"
    by (metis Suc_less_eq drop_Suc_Cons length_Cons)
  ultimately show ?case using Cons.IH by simp
qed

text \<open>
  C3. When no registered pattern matches at any position of the escaped command,
  \<open>unfold_command\<close> returns the list whose only element is the escaped command decoded
  again, which is the command itself whenever decoding recovers the original text.
\<close>

theorem unfold_command_no_folded_argument:
  "(\<forall>i < length (enc command). match_at templates (drop i (enc command)) = None) \<longrightarrow>
     unfold_command enc dec templates command = Inr [dec (enc command)]
     \<and> (dec (enc command) = command \<longrightarrow> unfold_command enc dec templates command = Inr [command])"
  by (simp add: unfold_command_def finditer_no_match)

theorem unfold_command_no_folded_argument_witness:
  "unfold_command id id argument_templates ''ls [1:2 -l'' = Inr [''ls [1:2 -l'']"
proof -
  have "\<forall>i < length (id ''ls [1:2 -l''). match_at argument_templates (drop i (id ''ls [1:2 -l'')) = None"
    unfolding id_apply by (simp add: All_less_Suc eval_nat_numeral; code_simp)
  then show ?thesis
    using unfold_command_no_folded_argument [of id "''ls [1:2 -l''" argument_templates id]
    by simp
qed




lemma nth_concat_map_map:
  "i < length xs \<Longrightarrow> j < length ys \<Longrightarrow>
     concat (map (\<lambda>x. map (f x) ys) xs) ! (i * length ys + j) = f (xs ! i) (ys ! j)"
proof (induction xs arbitrary: i)
  case Nil
  then show ?case by simp
next
  case (Cons x xs)
  show ?case
  proof (cases i)
    case 0
    with Cons.prems show ?thesis by (simp add: nth_append)
  next
    case (Suc k)
    with Cons.prems have "k < length xs" by simp
    from Cons.IH [OF this Cons.prems(2)] Suc show ?thesis
      by (simp add: nth_append)
  qed
qed

lemma itertools_product_two_folded:
  "map concat (itertools_product [[l0], xs, [l1], ys, [l2]])
     = concat (map (\<lambda>x. map (\<lambda>y. l0 @ x @ l1 @ y @ l2) ys) xs)"
  by (simp add: map_concat comp_def)

lemma build_arguments_two_matches:
  assumes "map_of templates k1 = Some t1" and "unfold t1 (slice text s1 e1) = Inr xs"
    and "map_of templates k2 = Some t2" and "unfold t2 (slice text s2 e2) = Inr ys"
  shows "build_arguments templates text 0 [(s1, e1, k1), (s2, e2, k2)]
           = Inr [[slice text 0 s1], xs, [slice text e1 s2], ys, [drop e2 text]]"
  using assms by simp

text \<open>
  C1. When the scan finds exactly two folded arguments, unfolding to the lists \<open>xs\<close> and
  \<open>ys\<close>, \<open>unfold_command\<close> returns \<open>length xs * length ys\<close> commands; the command at
  position \<open>i * length ys + j\<close> is the literal text before the first argument, the
  \<open>i\<close>-th value of \<open>xs\<close>, the literal text between the arguments, the \<open>j\<close>-th value of
  \<open>ys\<close> and the rest of the text, each piece decoded: every pair of values occurs once
  and the second argument varies fastest. With the templates of the spec and an escaping
  that leaves the pieces of \<open>echo [a b] [1:3]\<close> unchanged, that command unfolds to the six
  commands \<open>echo a 1\<close>, \<open>echo a 2\<close>, \<open>echo a 3\<close>, \<open>echo b 1\<close>, \<open>echo b 2\<close>, \<open>echo b 3\<close>.
\<close>

theorem unfold_command_cartesian_product:
  "(finditer templates 0 (enc command) = [(s1, e1, k1), (s2, e2, k2)]
    \<and> map_of templates k1 = Some t1 \<and> unfold t1 (slice (enc command) s1 e1) = Inr xs
    \<and> map_of templates k2 = Some t2 \<and> unfold t2 (slice (enc command) s2 e2) = Inr ys
    \<longrightarrow> (\<exists>commands. unfold_command enc dec templates command = Inr commands
          \<and> length commands = length xs * length ys
          \<and> (\<forall>i < length xs. \<forall>j < length ys.
                commands ! (i * length ys + j)
                  = dec (slice (enc command) 0 s1) @ dec (xs ! i)
                    @ dec (slice (enc command) e1 s2) @ dec (ys ! j)
                    @ dec (drop e2 (enc command)))))
   \<and> (enc ''echo [a b] [1:3]'' = ''echo [a b] [1:3]''
        \<and> (\<forall>s \<in> set [''echo '', ''a'', ''b'', '' '', ''1'', ''2'', ''3'', []]. dec s = s)
      \<longrightarrow> unfold_command enc dec argument_templates ''echo [a b] [1:3]''
            = Inr [''echo a 1'', ''echo a 2'', ''echo a 3'', ''echo b 1'', ''echo b 2'', ''echo b 3''])"
proof (intro conjI impI)
  assume a: "finditer templates 0 (enc command) = [(s1, e1, k1), (s2, e2, k2)]
    \<and> map_of templates k1 = Some t1 \<and> unfold t1 (slice (enc command) s1 e1) = Inr xs
    \<and> map_of templates k2 = Some t2 \<and> unfold t2 (slice (enc command) s2 e2) = Inr ys"
  let ?text = "enc command"
  let ?f = "\<lambda>x y. dec (slice ?text 0 s1) @ x @ dec (slice ?text e1 s2) @ y @ dec (drop e2 ?text)"
  let ?r = "concat (map (\<lambda>x. map (?f x) (map dec ys)) (map dec xs))"
  from a have "build_arguments templates ?text 0 (finditer templates 0 ?text)
      = Inr [[slice ?text 0 s1], xs, [slice ?text e1 s2], ys, [drop e2 ?text]]"
    by (simp add: build_arguments_two_matches)
  then have "unfold_command enc dec templates command
      = Inr (map concat (itertools_product
          [[dec (slice ?text 0 s1)], map dec xs, [dec (slice ?text e1 s2)], map dec ys,
           [dec (drop e2 ?text)]]))"
    by (simp add: unfold_command_arguments)
  then have r: "unfold_command enc dec templates command = Inr ?r"
    by (simp only: itertools_product_two_folded)
  have len: "length ?r = length xs * length ys"
    by (simp add: length_concat comp_def sum_list_triv)
  have nth: "?r ! (i * length ys + j) = ?f (dec (xs ! i)) (dec (ys ! j))"
    if "i < length xs" and "j < length ys" for i j
    using nth_concat_map_map [of i "map dec xs" j "map dec ys" ?f] that by simp
  from r len nth
  show "\<exists>commands. unfold_command enc dec templates command = Inr commands
          \<and> length commands = length xs * length ys
          \<and> (\<forall>i < length xs. \<forall>j < length ys.
                commands ! (i * length ys + j)
                  = dec (slice (enc command) 0 s1) @ dec (xs ! i)
                    @ dec (slice (enc command) e1 s2) @ dec (ys ! j)
                    @ dec (drop e2 (enc command)))"
    by blast
next
  assume b: "enc ''echo [a b] [1:3]'' = ''echo [a b] [1:3]''
        \<and> (\<forall>s \<in> set [''echo '', ''a'', ''b'', '' '', ''1'', ''2'', ''3'', []]. dec s = s)"
  have "build_arguments argument_templates ''echo [a b] [1:3]'' 0
          (finditer argument_templates 0 ''echo [a b] [1:3]'')
        = Inr [[''echo ''], [''a'', ''b''], ['' ''], [''1'', ''2'', ''3''], ['''']]"
    by code_simp
  with b have "build_arguments argument_templates (enc ''echo [a b] [1:3]'') 0
          (finditer argument_templates 0 (enc ''echo [a b] [1:3]''))
        = Inr [[''echo ''], [''a'', ''b''], ['' ''], [''1'', ''2'', ''3''], ['''']]"
    by simp
  then have "unfold_command enc dec argument_templates ''echo [a b] [1:3]''
      = Inr (map concat (itertools_product (map (map dec)
          [[''echo ''], [''a'', ''b''], ['' ''], [''1'', ''2'', ''3''], ['''']])))"
    by (rule unfold_command_arguments)
  with b
  show "unfold_command enc dec argument_templates ''echo [a b] [1:3]''
            = Inr [''echo a 1'', ''echo a 2'', ''echo a 3'', ''echo b 1'', ''echo b 2'', ''echo b 3'']"
    by simp
qed

theorem unfold_command_cartesian_product_witness:
  "\<exists>commands. unfold_command id id argument_templates ''echo [a b] [1:3]'' = Inr commands
      \<and> length commands = 2 * 3 \<and> commands ! (1 * 3 + 2) = ''echo b 3''
      \<and> commands = [''echo a 1'', ''echo a 2'', ''echo a 3'', ''echo b 1'', ''echo b 2'', ''echo b 3'']"
proof -
  have f: "finditer argument_templates 0 (id ''echo [a b] [1:3]'') = [(5, 10, ''list''), (11, 16, ''range'')]"
    by code_simp
  have m1: "map_of argument_templates ''list'' = Some \<lparr>regex = list_regex, unfold = list_unfold\<rparr>"
    and m2: "map_of argument_templates ''range'' = Some \<lparr>regex = range_regex, unfold = range_unfold\<rparr>"
    by (simp_all add: argument_templates_def)
  have u1: "unfold \<lparr>regex = list_regex, unfold = list_unfold\<rparr> (slice (id ''echo [a b] [1:3]'') 5 10) = Inr [''a'', ''b'']"
    by code_simp
  have u2: "unfold \<lparr>regex = range_regex, unfold = range_unfold\<rparr> (slice (id ''echo [a b] [1:3]'') 11 16) = Inr [''1'', ''2'', ''3'']"
    by code_simp
  have s: "slice (id ''echo [a b] [1:3]'') 0 5 = ''echo ''" "slice (id ''echo [a b] [1:3]'') 10 11 = '' ''"
    "drop 16 (id ''echo [a b] [1:3]'') = []"
    by (simp_all add: slice_def)
  from unfold_command_cartesian_product [of argument_templates id "''echo [a b] [1:3]''"
      5 10 "''list''" 11 16 "''range''" "\<lparr>regex = list_regex, unfold = list_unfold\<rparr>" "[''a'', ''b'']"
      "\<lparr>regex = range_regex, unfold = range_unfold\<rparr>" "[''1'', ''2'', ''3'']" id]
    f m1 m2 u1 u2
  show ?thesis
    by simp
qed

section \<open>Properties of the range template\<close>

lemma range_inclusive_wrong_sign:
  "0 < step \<and> stop < start \<or> step < 0 \<and> start < stop \<Longrightarrow> range_inclusive start stop step = []"
  by (subst range_inclusive.simps) auto

lemma range_count_step:
  assumes "0 < step \<and> start \<le> stop \<or> step < 0 \<and> stop \<le> start"
  shows "range_count start stop step = Suc (range_count (start + step) stop step)"
proof -
  from assms have nz: "step \<noteq> 0" by auto
  have "(stop - (start + step)) div step = ((stop - start) + (- 1) * step) div step"
    by (simp add: algebra_simps)
  also have "\<dots> = - 1 + (stop - start) div step"
    using nz by (rule div_mult_self1)
  finally have d: "(stop - (start + step)) div step = (stop - start) div step - 1"
    by simp
  show ?thesis
  proof (cases "0 < step \<and> start + step \<le> stop \<or> step < 0 \<and> stop \<le> start + step")
    case True
    then have "0 \<le> (stop - (start + step)) div step"
      by (auto simp: pos_imp_zdiv_nonneg_iff neg_imp_zdiv_nonneg_iff)
    with True assms d show ?thesis
      by (auto simp: range_count_def)
  next
    case False
    with assms have "(stop - start) div step = 0"
      by (auto simp: div_pos_pos_trivial div_neg_neg_trivial)
    with False assms show ?thesis
      by (auto simp: range_count_def)
  qed
qed

lemma range_inclusive_closed_form:
  "step \<noteq> 0 \<Longrightarrow>
     range_inclusive start stop step
       = map (\<lambda>i. start + int i * step) [0..<range_count start stop step]"
proof (induction start stop step rule: range_inclusive.induct)
  case (1 start stop step)
  show ?case
  proof (cases "0 < step \<and> start \<le> stop \<or> step < 0 \<and> stop \<le> start")
    case True
    then have "range_inclusive start stop step = start # range_inclusive (start + step) stop step"
      by (subst range_inclusive.simps) simp
    also have "\<dots> = start # map (\<lambda>i. start + step + int i * step)
        [0..<range_count (start + step) stop step]"
      using 1 True by simp
    also have "\<dots> = map (\<lambda>i. start + int i * step) [0..<Suc (range_count (start + step) stop step)]"
      by (simp add: upt_conv_Cons map_Suc_upt [symmetric] algebra_simps del: upt_Suc)
    finally show ?thesis using range_count_step [OF True] by simp
  next
    case False
    then have "range_inclusive start stop step = []"
      by (subst range_inclusive.simps) simp
    with False show ?thesis by (simp add: range_count_def)
  qed
qed

lemma digit_val_digit_char_all: "\<forall>d < 10. digit_val (digit_char d) = Some d"
  by (simp add: All_less_Suc eval_nat_numeral digit_val_def digit_char_def)

lemma digit_val_digit_char: "d < 10 \<Longrightarrow> digit_val (digit_char d) = Some d"
  using digit_val_digit_char_all by blast

lemma digit_char_in_digits: "d < 10 \<Longrightarrow> digit_char d \<in> set ''0123456789''"
  unfolding digit_char_def by (rule nth_mem) simp

lemma parse_digits_append:
  "parse_digits acc (xs @ [c]) =
     (case parse_digits acc xs of
        None \<Rightarrow> None
      | Some a \<Rightarrow> (case digit_val c of None \<Rightarrow> None | Some d \<Rightarrow> Some (10 * a + d)))"
  by (induction xs arbitrary: acc) (auto split: option.splits)

lemma parse_digits_str_nat: "parse_digits 0 (str_nat n) = Some n"
proof (induction n rule: str_nat.induct)
  case (1 n)
  show ?case
  proof (cases "n < 10")
    case True
    then show ?thesis
      by (subst str_nat.simps) (simp add: digit_val_digit_char)
  next
    case False
    with 1 have "parse_digits 0 (str_nat (n div 10)) = Some (n div 10)" by simp
    then show ?thesis using False
      by (subst str_nat.simps) (simp add: parse_digits_append digit_val_digit_char)
  qed
qed

lemma str_nat_not_Nil: "str_nat n \<noteq> []"
  by (subst str_nat.simps) simp

lemma str_nat_chars: "set (str_nat n) \<subseteq> set ''0123456789''"
proof (induction n rule: str_nat.induct)
  case (1 n)
  show ?case
  proof (cases "n < 10")
    case True
    then show ?thesis
      using digit_char_in_digits [of n] by (subst str_nat.simps) simp
  next
    case False
    with 1 have "set (str_nat (n div 10)) \<subseteq> set ''0123456789''" by simp
    moreover have "digit_char (n mod 10) \<in> set ''0123456789''"
      by (rule digit_char_in_digits) simp
    ultimately show ?thesis using False
      by (subst str_nat.simps) simp
  qed
qed

lemma parse_nat_str_nat: "parse_nat (str_nat n) = Some n"
  by (simp add: parse_nat_def str_nat_not_Nil parse_digits_str_nat)

lemma parse_int_str_int: "parse_int (str_int i) = Some i"
proof (cases "i < 0")
  case True
  then show ?thesis
    by (simp add: parse_int_def str_int_def parse_nat_str_nat)
next
  case False
  obtain c cs where s: "str_nat (nat i) = c # cs"
    using str_nat_not_Nil [of "nat i"] by (cases "str_nat (nat i)") auto
  then have "c \<in> set ''0123456789''"
    using str_nat_chars [of "nat i"] by auto
  then have "c \<noteq> CHR ''-''" by auto
  with False s parse_nat_str_nat [of "nat i"] show ?thesis
    by (simp add: parse_int_def str_int_def)
qed

lemma str_int_chars: "CHR '':'' \<notin> set (str_int i)"
  using str_nat_chars [of "nat i"] str_nat_chars [of "nat (- i)"]
  by (auto simp: str_int_def)

lemma split_char_colon2:
  "split_char (CHR '':'') (str_int a @ CHR '':'' # str_int b) = [str_int a, str_int b]"
  by (simp add: split_char_append str_int_chars split_char_no_sep)

lemma split_char_colon3:
  "split_char (CHR '':'') (str_int a @ CHR '':'' # str_int b @ CHR '':'' # str_int c)
     = [str_int a, str_int b, str_int c]"
  by (simp add: split_char_append str_int_chars split_char_no_sep)

lemma parse_range_two: "parse_range (str_int a @ CHR '':'' # str_int b) = Some (a, b, None)"
  unfolding parse_range_def split_char_colon2 by (simp add: parse_int_str_int)

lemma parse_range_three:
  "parse_range (str_int a @ CHR '':'' # str_int b @ CHR '':'' # str_int c) = Some (a, b, Some c)"
  unfolding parse_range_def split_char_colon3 by (simp add: parse_int_str_int)

lemma inner_brackets: "inner (CHR ''['' # body @ '']'') = body"
  by (simp add: inner_def butlast_append)

lemma range_unfold_parsed:
  assumes "parse_range (inner matched_text) = Some (start, stop, step_opt)"
    and "step = (case step_opt of None \<Rightarrow> 1 | Some k \<Rightarrow> k)" and "step \<noteq> 0"
  shows "range_unfold matched_text
           = Inr (map (\<lambda>i. str_int (start + int i * step)) [0..<range_count start stop step])"
  using assms by (simp add: range_unfold_def range_inclusive_closed_form comp_def Let_def)

text \<open>
  C2. For integers \<open>start\<close>, \<open>end\<close> and a non-zero \<open>step\<close>, the range template unfolds
  \<open>[start:end:step]\<close> to the decimal strings of \<open>start\<close>, \<open>start + step\<close>, \<dots>, as many as
  lie between \<open>start\<close> and \<open>end\<close> inclusive, and \<open>[start:end]\<close> to the same with step 1;
  the decimal string of an integer reads back as that integer. In particular \<open>[1:5]\<close>
  gives 1, 2, 3, 4, 5, \<open>[1:5:2]\<close> gives 1, 3, 5 and \<open>[5:1:-1]\<close> gives 5, 4, 3, 2, 1.
\<close>

theorem range_unfold_inclusive:
  "(step \<noteq> 0 \<longrightarrow>
      range_unfold (''['' @ str_int start @ '':'' @ str_int stop @ '':'' @ str_int step @ '']'')
        = Inr (map (\<lambda>i. str_int (start + int i * step)) [0..<range_count start stop step]))
   \<and> range_unfold (''['' @ str_int start @ '':'' @ str_int stop @ '']'')
        = Inr (map (\<lambda>i. str_int (start + int i)) [0..<range_count start stop 1])
   \<and> parse_int (str_int start) = Some start
   \<and> range_unfold ''[1:5]'' = Inr [''1'', ''2'', ''3'', ''4'', ''5'']
   \<and> range_unfold ''[1:5:2]'' = Inr [''1'', ''3'', ''5'']
   \<and> range_unfold ''[5:1:-1]'' = Inr [''5'', ''4'', ''3'', ''2'', ''1'']"
proof (intro conjI impI)
  assume nz: "step \<noteq> 0"
  let ?body = "str_int start @ CHR '':'' # str_int stop @ CHR '':'' # str_int step"
  have e: "''['' @ str_int start @ '':'' @ str_int stop @ '':'' @ str_int step @ '']''
      = CHR ''['' # ?body @ '']''"
    by simp
  have p: "parse_range (inner (CHR ''['' # ?body @ '']'')) = Some (start, stop, Some step)"
    by (simp only: inner_brackets parse_range_three)
  from range_unfold_parsed [OF p, of step] nz
  show "range_unfold (''['' @ str_int start @ '':'' @ str_int stop @ '':'' @ str_int step @ '']'')
        = Inr (map (\<lambda>i. str_int (start + int i * step)) [0..<range_count start stop step])"
    unfolding e by simp
next
  let ?body = "str_int start @ CHR '':'' # str_int stop"
  have e: "''['' @ str_int start @ '':'' @ str_int stop @ '']'' = CHR ''['' # ?body @ '']''"
    by simp
  have p: "parse_range (inner (CHR ''['' # ?body @ '']'')) = Some (start, stop, None)"
    by (simp only: inner_brackets parse_range_two)
  from range_unfold_parsed [OF p, of 1]
  show "range_unfold (''['' @ str_int start @ '':'' @ str_int stop @ '']'')
        = Inr (map (\<lambda>i. str_int (start + int i)) [0..<range_count start stop 1])"
    unfolding e by simp
next
  show "parse_int (str_int start) = Some start"
    by (rule parse_int_str_int)
next
  show "range_unfold ''[1:5]'' = Inr [''1'', ''2'', ''3'', ''4'', ''5'']"
    by code_simp
next
  show "range_unfold ''[1:5:2]'' = Inr [''1'', ''3'', ''5'']"
    by code_simp
next
  show "range_unfold ''[5:1:-1]'' = Inr [''5'', ''4'', ''3'', ''2'', ''1'']"
    by code_simp
qed

theorem range_unfold_inclusive_witness:
  "range_unfold (''['' @ str_int 7 @ '':'' @ str_int (- 2) @ '':'' @ str_int (- 4) @ '']'')
     = Inr [''7'', ''3'', ''-1'']
   \<and> ''['' @ str_int 7 @ '':'' @ str_int (- 2) @ '':'' @ str_int (- 4) @ '']'' = ''[7:-2:-4]''"
proof -
  have c: "range_count 7 (- 2) (- 4) = 3"
    by (simp add: range_count_def)
  have u: "[0..<3] = [0, 1, 2]"
    by (simp add: upt_rec)
  have s: "str_int 7 = ''7''" "str_int 3 = ''3''" "str_int (- 1) = ''-1''"
    "str_int (- 2) = ''-2''" "str_int (- 4) = ''-4''"
    by code_simp+
  from range_unfold_inclusive [of "- 4" 7 "- 2"] c u s show ?thesis
    by simp
qed

lemma build_arguments_member:
  "build_arguments templates text pos matches = Inr arguments \<Longrightarrow>
   (start, stop, name) \<in> set matches \<Longrightarrow> map_of templates name = Some arg \<Longrightarrow>
   \<exists>values. unfold arg (slice text start stop) = Inr values \<and> values \<in> set arguments"
proof (induction matches arbitrary: pos arguments)
  case Nil
  then show ?case by simp
next
  case (Cons m matches)
  obtain s e k where m: "m = (s, e, k)" by (cases m) auto
  from Cons.prems(1) m obtain a vs rest where
    a: "map_of templates k = Some a" and vs: "unfold a (slice text s e) = Inr vs"
    and rest: "build_arguments templates text e matches = Inr rest"
    and args: "arguments = [slice text pos s] # vs # rest"
    by (auto split: option.splits sum.splits)
  show ?case
  proof (cases "(start, stop, name) = m")
    case True
    with m a vs args Cons.prems(3) show ?thesis by auto
  next
    case False
    with Cons.prems(2) have "(start, stop, name) \<in> set matches" by simp
    from Cons.IH [OF rest this Cons.prems(3)] args show ?thesis by auto
  qed
qed

lemma range_unfold_wrong_sign:
  assumes "parse_range (inner matched_text) = Some (start, stop, step_opt)"
    and "step = (case step_opt of None \<Rightarrow> 1 | Some k \<Rightarrow> k)"
    and "0 < step \<and> stop < start \<or> step < 0 \<and> start < stop"
  shows "range_unfold matched_text = Inr []"
proof -
  from assms(3) have "step \<noteq> 0" by auto
  with assms show ?thesis
    by (simp add: range_unfold_def Let_def range_inclusive_wrong_sign)
qed

text \<open>
  C4 (the claim as it stands fails). A second range with an explicit zero step raises,
  so the command with a wrong-sign range does not return at all.
\<close>

theorem unfold_command_wrong_sign_counterexample:
  "unfold_command id id argument_templates ''echo [1:5:-1] [1:2:0]'' = Inl ValueError"
  by code_simp

text \<open>
  C4 (amended). When the scan finds a range folded argument whose step has the wrong
  sign to reach the end from the start, that argument unfolds to the empty list without
  an error; and when no folded argument of the command raises, \<open>unfold_command\<close>
  returns the empty list of commands.
\<close>

theorem unfold_command_wrong_sign_range:
  "(start_pos, end_pos, ''range'') \<in> set (finditer argument_templates 0 (enc command))
   \<and> parse_range (inner (slice (enc command) start_pos end_pos)) = Some (start, stop, step_opt)
   \<and> step = (case step_opt of None \<Rightarrow> 1 | Some k \<Rightarrow> k)
   \<and> (0 < step \<and> stop < start \<or> step < 0 \<and> start < stop)
   \<longrightarrow> range_unfold (slice (enc command) start_pos end_pos) = Inr []
       \<and> (build_arguments argument_templates (enc command) 0
             (finditer argument_templates 0 (enc command)) = Inr arguments
            \<longrightarrow> unfold_command enc dec argument_templates command = Inr [])"
proof (intro impI conjI)
  assume a: "(start_pos, end_pos, ''range'') \<in> set (finditer argument_templates 0 (enc command))
   \<and> parse_range (inner (slice (enc command) start_pos end_pos)) = Some (start, stop, step_opt)
   \<and> step = (case step_opt of None \<Rightarrow> 1 | Some k \<Rightarrow> k)
   \<and> (0 < step \<and> stop < start \<or> step < 0 \<and> start < stop)"
  then show r: "range_unfold (slice (enc command) start_pos end_pos) = Inr []"
    using range_unfold_wrong_sign [of "slice (enc command) start_pos end_pos" start stop step_opt step]
    by blast
  assume b: "build_arguments argument_templates (enc command) 0
             (finditer argument_templates 0 (enc command)) = Inr arguments"
  have m: "map_of argument_templates ''range'' = Some \<lparr>regex = range_regex, unfold = range_unfold\<rparr>"
    by (simp add: argument_templates_def)
  from a have "(start_pos, end_pos, ''range'') \<in> set (finditer argument_templates 0 (enc command))"
    by blast
  from build_arguments_member [OF b this m] r have "[] \<in> set arguments"
    by auto
  then have "itertools_product (map (map dec) arguments) = []"
    by (simp add: itertools_product_Nil_iff)
  moreover from b have "unfold_command enc dec argument_templates command
      = Inr (map concat (itertools_product (map (map dec) arguments)))"
    by (rule unfold_command_arguments)
  ultimately show "unfold_command enc dec argument_templates command = Inr []"
    by simp
qed

theorem unfold_command_wrong_sign_range_witness:
  "range_unfold ''[1:5:-1]'' = Inr []
   \<and> unfold_command id id argument_templates ''echo [a b] [1:5:-1]'' = Inr []"
proof -
  have f: "finditer argument_templates 0 (id ''echo [a b] [1:5:-1]'')
             = [(5, 10, ''list''), (11, 19, ''range'')]"
    by code_simp
  have s: "slice (id ''echo [a b] [1:5:-1]'') 11 19 = ''[1:5:-1]''"
    by (simp add: slice_def)
  have p: "parse_range (inner ''[1:5:-1]'') = Some (1, 5, Some (- 1))"
    by code_simp
  have b: "build_arguments argument_templates (id ''echo [a b] [1:5:-1]'') 0
             (finditer argument_templates 0 (id ''echo [a b] [1:5:-1]''))
           = Inr [[''echo ''], [''a'', ''b''], ['' ''], [], ['''']]"
    by code_simp
  from unfold_command_wrong_sign_range [of 11 19 id "''echo [a b] [1:5:-1]''" 1 5 "Some (- 1)" "- 1"
      "[[''echo ''], [''a'', ''b''], ['' ''], [], ['''']]" id] f s p b
  show ?thesis
    by simp
qed

end
